theory Spec2Isabelle
  imports Complex_Main "HOL-Library.Word" "HOL-Library.Log_Nat" "HOL-Library.Sublist"
    "HOL-Library.Multiset"
begin

section \<open>Numbers\<close>

text \<open>
  The program computes with JavaScript Numbers (IEEE 754 binary64). Integer-valued
  quantities (lengths, token counts, the integer fields of the configuration) are modelled
  as \<open>int\<close>: below \<open>2 ^ 53\<close> every integer is a Number and its sums and differences
  are exact. Fractional quantities are modelled as \<open>rat\<close>, and every operation of the
  source that rounds (a decimal literal, \<open>*\<close>, \<open>/\<close>, \<open>+\<close> on fractions) is
  followed by \<open>to_double\<close>, rounding to the nearest binary64 value with ties to the even
  significand. The exponent range is left unbounded: the values of this program stay far
  from overflow and from the subnormal range.
\<close>

definition pow2 :: "int \<Rightarrow> rat" where
  "pow2 e = (if 0 \<le> e then 2 ^ nat e else 1 / 2 ^ nat (- e))"

definition round_half_even :: "rat \<Rightarrow> int" where
  "round_half_even x =
     (let f = \<lfloor>x\<rfloor>; r = x - of_int f
      in if r < 1 / 2 then f
         else if 1 / 2 < r then f + 1
         else if even f then f else f + 1)"

text \<open>
  \<open>ilog2 x\<close> is the binary exponent of a positive \<open>x\<close>:
  \<open>2 ^ ilog2 x \<le> x < 2 ^ (ilog2 x + 1)\<close>.
\<close>

definition ilog2 :: "rat \<Rightarrow> int" where
  "ilog2 x =
     (case quotient_of x of (a, b) \<Rightarrow>
        let k = bitlen a - bitlen b in if pow2 k \<le> x then k else k - 1)"

definition to_double :: "rat \<Rightarrow> rat" where
  "to_double x =
     (if x = 0 then 0
      else let e = ilog2 \<bar>x\<bar> - 52
           in of_int (round_half_even (x / pow2 e)) * pow2 e)"

definition dmul :: "rat \<Rightarrow> rat \<Rightarrow> rat" where
  "dmul x y = to_double (x * y)"

definition dadd :: "rat \<Rightarrow> rat \<Rightarrow> rat" where
  "dadd x y = to_double (x + y)"

definition ddiv :: "rat \<Rightarrow> rat \<Rightarrow> rat" where
  "ddiv x y = to_double (x / y)"

text \<open>A Number that may also be NaN or an infinity.\<close>

datatype jsnum = Finite rat | PosInfinity | NegInfinity | NaN

section \<open>Strings\<close>

text \<open>
  A JavaScript string is a sequence of UTF-16 code units; the regular expressions of
  \<open>estimateTokens\<close> carry no \<open>u\<close> flag, so they classify code units, and \<open>.length\<close>
  counts them.
\<close>

type_synonym code_unit = "16 word"
type_synonym jsstring = "code_unit list"

definition lit :: "string \<Rightarrow> jsstring" where
  "lit s = map (\<lambda>c. of_nat (of_char c)) s"

text \<open>The character class of the code units U+4E00 to U+9FA5 (CJK ideographs).\<close>

definition is_cjk :: "code_unit \<Rightarrow> bool" where
  "is_cjk c = (0x4e00 \<le> c \<and> c \<le> 0x9fa5)"

text \<open>The character class \<open>[a-zA-Z]\<close>.\<close>

definition is_ascii_letter :: "code_unit \<Rightarrow> bool" where
  "is_ascii_letter c = ((0x61 \<le> c \<and> c \<le> 0x7a) \<or> (0x41 \<le> c \<and> c \<le> 0x5a))"

text \<open>
  The white-space class of ECMAScript regular expressions: the WhiteSpace and
  LineTerminator code points (TAB, LF, VT, FF, CR, SP, NBSP, U+1680, U+2000 to U+200A,
  LS, PS, U+202F, U+205F, U+3000, U+FEFF).
\<close>

definition is_js_space :: "code_unit \<Rightarrow> bool" where
  "is_js_space c =
     ((0x09 \<le> c \<and> c \<le> 0x0d) \<or> c = 0x20 \<or> c = 0xa0 \<or> c = 0x1680
      \<or> (0x2000 \<le> c \<and> c \<le> 0x200a) \<or> c = 0x2028 \<or> c = 0x2029 \<or> c = 0x202f
      \<or> c = 0x205f \<or> c = 0x3000 \<or> c = 0xfeff)"

text \<open>The class that \<open>replace\<close> deletes: CJK, ASCII letters and white space.\<close>

definition is_counted_elsewhere :: "code_unit \<Rightarrow> bool" where
  "is_counted_elsewhere c = (is_cjk c \<or> is_ascii_letter c \<or> is_js_space c)"

text \<open>
  The number of matches of \<open>/[a-zA-Z]+/g\<close>: the leftmost match starts at the first
  letter and, \<open>+\<close> being greedy, takes the whole run of letters; matching resumes behind it.
\<close>

function count_letter_runs :: "jsstring \<Rightarrow> nat" where
  "count_letter_runs [] = 0"
| "count_letter_runs (c # cs) =
     (if is_ascii_letter c then 1 + count_letter_runs (dropWhile is_ascii_letter cs)
      else count_letter_runs cs)"
  by pat_completeness auto
termination
  by (relation "measure length") (auto simp: le_imp_less_Suc length_dropWhile_le)

section \<open>Token estimation\<close>

definition MESSAGE_TOKEN_OVERHEAD :: int where
  "MESSAGE_TOKEN_OVERHEAD = 4"

definition MIN_CONTEXT_BUDGET_TOKENS :: int where
  "MIN_CONTEXT_BUDGET_TOKENS = 1"

definition estimateTokens :: "jsstring \<Rightarrow> int" where
  "estimateTokens text =
     (if text = [] then 0
      else
        let chineseChars = length (filter is_cjk text);
            englishWords = count_letter_runs text;
            otherChars = length (filter (\<lambda>c. \<not> is_counted_elsewhere c) text)
        in \<lceil>dadd (dadd (of_nat chineseChars) (dmul (of_nat englishWords) (to_double (13 / 10))))
                  (dmul (of_nat otherChars) (1 / 2))\<rceil>)"

section \<open>Messages\<close>

text \<open>
  A message has the type tag that \<open>_getType()\<close> returns and a content that is a string
  or a structured payload. \<open>JSON.stringify\<close> belongs to the language, not to this
  program: the functions below take it as the parameter \<open>stringify\<close>.
\<close>

datatype 'a content = Text jsstring | Structured 'a

record 'a message =
  msg_type :: jsstring
  msg_content :: "'a content"

definition content_text :: "('a \<Rightarrow> jsstring) \<Rightarrow> 'a message \<Rightarrow> jsstring" where
  "content_text stringify message =
     (case msg_content message of Text s \<Rightarrow> s | Structured v \<Rightarrow> stringify v)"

definition estimateMessageTokens :: "('a \<Rightarrow> jsstring) \<Rightarrow> 'a message \<Rightarrow> int" where
  "estimateMessageTokens stringify message =
     estimateTokens (content_text stringify message) + MESSAGE_TOKEN_OVERHEAD"

definition estimateTotalTokens :: "('a \<Rightarrow> jsstring) \<Rightarrow> 'a message list \<Rightarrow> int" where
  "estimateTotalTokens stringify messages =
     foldl (\<lambda>sum msg. sum + estimateMessageTokens stringify msg) 0 messages"

definition is_system :: "'a message \<Rightarrow> bool" where
  "is_system m = (msg_type m = lit ''system'')"

section \<open>Budgets\<close>

text \<open>
  The four integer fields hold integers in the safe range; \<open>max_history_share\<close> is a
  fraction, modelled by the rational value of its binary64.
\<close>

record CompactionConfig =
  enabled :: bool
  auto_compact_threshold :: int
  context_window :: int
  reserve_tokens :: int
  max_history_share :: rat

definition getCompactionHardContextBudget :: "CompactionConfig \<Rightarrow> int" where
  "getCompactionHardContextBudget config =
     max MIN_CONTEXT_BUDGET_TOKENS (context_window config - reserve_tokens config)"

definition getEffectiveAutoCompactThreshold :: "CompactionConfig \<Rightarrow> int" where
  "getEffectiveAutoCompactThreshold config =
     min (auto_compact_threshold config) (getCompactionHardContextBudget config)"

definition getCompactionHistoryTokenBudget :: "CompactionConfig \<Rightarrow> int" where
  "getCompactionHistoryTokenBudget config =
     max MIN_CONTEXT_BUDGET_TOKENS
       \<lfloor>dmul (of_int (getCompactionHardContextBudget config)) (max_history_share config)\<rfloor>"

definition shouldAutoCompact :: "int \<Rightarrow> CompactionConfig \<Rightarrow> bool" where
  "shouldAutoCompact totalTokens config =
     (if \<not> enabled config then False
      else getEffectiveAutoCompactThreshold config \<le> totalTokens)"

section \<open>Display\<close>

text \<open>
  Template literals and \<open>toFixed\<close> turn Numbers into decimal strings. \<open>int_to_string\<close>
  is \<open>Number::toString\<close> on an integer below \<open>10 ^ 21\<close> in magnitude.
\<close>

definition digit_char :: "nat \<Rightarrow> char" where
  "digit_char d = ''0123456789'' ! d"

fun nat_to_string :: "nat \<Rightarrow> string" where
  "nat_to_string n =
     (if n < 10 then [digit_char n] else nat_to_string (n div 10) @ [digit_char (n mod 10)])"

definition int_to_string :: "int \<Rightarrow> string" where
  "int_to_string n = (if n < 0 then ''-'' @ nat_to_string (nat (- n)) else nat_to_string (nat n))"

text \<open>
  \<open>x.toFixed(1)\<close> for a finite \<open>x\<close> below \<open>10 ^ 21\<close> in magnitude: the sign, then the
  integer \<open>n\<close> for which \<open>n / 10\<close> is nearest to the exact value of \<open>\<bar>x\<bar>\<close>, the larger
  one of two, written with its last digit behind the point.
\<close>

definition toFixed1 :: "rat \<Rightarrow> string" where
  "toFixed1 x =
     (let s = (if x < 0 then ''-'' else []);
          a = \<bar>x\<bar>;
          n = nat \<lfloor>a * 10 + 1 / 2\<rfloor>
      in s @ nat_to_string (n div 10) @ ''.'' @ [digit_char (n mod 10)])"

definition formatTokenCount :: "int \<Rightarrow> string" where
  "formatTokenCount tokens =
     (if 1000 \<le> tokens then toFixed1 (ddiv (of_int tokens) 1000) @ ''K''
      else int_to_string tokens)"

text \<open>Division of integer-valued Numbers: by zero it gives NaN or an infinity.\<close>

definition js_divide :: "int \<Rightarrow> int \<Rightarrow> jsnum" where
  "js_divide a b =
     (if b = 0 then (if a = 0 then NaN else if 0 < a then PosInfinity else NegInfinity)
      else Finite (ddiv (of_int a) (of_int b)))"

fun js_times_100 :: "jsnum \<Rightarrow> jsnum" where
  "js_times_100 (Finite x) = Finite (dmul x 100)"
| "js_times_100 v = v"

text \<open>\<open>Math.round\<close>: the nearest integer, the larger one of two.\<close>

fun Math_round :: "jsnum \<Rightarrow> jsnum" where
  "Math_round (Finite x) = Finite (of_int \<lfloor>x + 1 / 2\<rfloor>)"
| "Math_round v = v"

text \<open>\<open>Number::toString\<close>, used on the integer-valued result of \<open>Math.round\<close>.\<close>

fun number_to_string :: "jsnum \<Rightarrow> string" where
  "number_to_string (Finite x) = int_to_string \<lfloor>x\<rfloor>"
| "number_to_string NaN = ''NaN''"
| "number_to_string PosInfinity = ''Infinity''"
| "number_to_string NegInfinity = ''-Infinity''"

definition getContextUsageInfo :: "int \<Rightarrow> CompactionConfig \<Rightarrow> string" where
  "getContextUsageInfo currentTokens config =
     (let percentage = Math_round (js_times_100 (js_divide currentTokens (context_window config)))
      in ''[Context: '' @ formatTokenCount currentTokens @ ''/''
         @ formatTokenCount (context_window config)
         @ '' ('' @ number_to_string percentage @ ''%)]'')"

section \<open>Pruning\<close>

record 'a prune_result =
  kept :: "'a message list"
  dropped :: "'a message list"
  droppedTokens :: int
  keptTokens :: int

text \<open>
  The state of the \<open>for\<close> loop of \<open>pruneMessages\<close>: \<open>keptNonSystem\<close>,
  \<open>currentTokens\<close>, \<open>result.dropped\<close> and \<open>result.droppedTokens\<close>.
\<close>

record 'a scan_state =
  keptNonSystem :: "'a message list"
  currentTokens :: int
  scan_dropped :: "'a message list"
  scan_droppedTokens :: int

text \<open>
  The loop runs \<open>i\<close> from the last index down to 0, so it visits the non-system messages
  newest first: \<open>prune_scan\<close> recurses over the list it is handed in that order, and
  \<open>pruneMessages\<close> hands it the reversed list. \<open>unshift\<close> adds at the front,
  \<open>push\<close> at the end.
\<close>

fun prune_scan ::
  "('a \<Rightarrow> jsstring) \<Rightarrow> int \<Rightarrow> 'a message list \<Rightarrow> 'a scan_state \<Rightarrow> 'a scan_state" where
  "prune_scan stringify availableTokens [] st = st"
| "prune_scan stringify availableTokens (msg # older) st =
     (let msgTokens = estimateMessageTokens stringify msg
      in if currentTokens st + msgTokens \<le> availableTokens
         then prune_scan stringify availableTokens older
                (st\<lparr>keptNonSystem := msg # keptNonSystem st,
                    currentTokens := currentTokens st + msgTokens\<rparr>)
         else prune_scan stringify availableTokens older
                (st\<lparr>scan_dropped := scan_dropped st @ [msg],
                    scan_droppedTokens := scan_droppedTokens st + msgTokens\<rparr>))"

definition pruneMessages ::
  "('a \<Rightarrow> jsstring) \<Rightarrow> 'a message list \<Rightarrow> int \<Rightarrow> 'a prune_result" where
  "pruneMessages stringify messages maxTokens =
     (if messages = [] then \<lparr>kept = [], dropped = [], droppedTokens = 0, keptTokens = 0\<rparr>
      else
        let systemMessages = filter is_system messages;
            nonSystemMessages = filter (\<lambda>m. \<not> is_system m) messages;
            systemTokens = estimateTotalTokens stringify systemMessages;
            availableTokens = maxTokens - systemTokens;
            st = prune_scan stringify availableTokens (rev nonSystemMessages)
                   \<lparr>keptNonSystem = [], currentTokens = 0,
                    scan_dropped = [], scan_droppedTokens = 0\<rparr>
        in \<lparr>kept = systemMessages @ keptNonSystem st,
            dropped = scan_dropped st,
            droppedTokens = scan_droppedTokens st,
            keptTokens = systemTokens + currentTokens st\<rparr>)"

section \<open>Counting with the model's tokenizer\<close>

text \<open>
  What \<open>getNumTokens\<close> resolves to is any Number, finite or not; awaiting it either
  yields that Number or throws (\<open>Inl\<close>). A model may lack the method. Each
  asynchronous function returns its outcome (\<open>Inl\<close> when it rejects) together with
  the texts \<open>getNumTokens\<close> was invoked with, in order.
\<close>

record 'e chat_model =
  getNumTokens :: "(jsstring \<Rightarrow> 'e + jsnum) option"

type_synonym ('e, 'r) async = "('e + 'r) \<times> jsstring list"

definition tryCountTokensByModel ::
  "jsstring \<Rightarrow> 'e chat_model option \<Rightarrow> ('e, int option) async" where
  "tryCountTokensByModel text model =
     (if text = [] then (Inr (Some 0), [])
      else case model of
        None \<Rightarrow> (Inr None, [])
      | Some tokenAwareModel \<Rightarrow>
          (case getNumTokens tokenAwareModel of
             None \<Rightarrow> (Inr None, [])
           | Some counter \<Rightarrow>
               (case counter text of
                  Inr (Finite counted) \<Rightarrow>
                    if 0 \<le> counted then (Inr (Some \<lceil>counted\<rceil>), [text])
                    else (Inr None, [text])
                | Inr _ \<Rightarrow> (Inr None, [text])
                | Inl thrown \<Rightarrow> (Inr None, [text]))))"

text \<open>\<open>text ?? ''\<close>: an absent text counts as the empty string.\<close>

definition countTokensWithModel ::
  "jsstring option \<Rightarrow> 'e chat_model option \<Rightarrow> ('e, int) async" where
  "countTokensWithModel text model =
     (let normalized = (case text of None \<Rightarrow> [] | Some t \<Rightarrow> t)
      in case tryCountTokensByModel normalized model of
           (Inl e, calls) \<Rightarrow> (Inl e, calls)
         | (Inr (Some modelTokens), calls) \<Rightarrow> (Inr modelTokens, calls)
         | (Inr None, calls) \<Rightarrow> (Inr (estimateTokens normalized), calls))"

definition roleLabelForMessage :: "'a message \<Rightarrow> jsstring" where
  "roleLabelForMessage message =
     (let type = msg_type message
      in if type = lit ''human'' then lit ''user''
         else if type = lit ''ai'' then lit ''assistant''
         else if type = lit ''system'' then lit ''system''
         else type)"

definition serializeMessageForTokenCount :: "('a \<Rightarrow> jsstring) \<Rightarrow> 'a message \<Rightarrow> jsstring" where
  "serializeMessageForTokenCount stringify message =
     lit ''['' @ roleLabelForMessage message @ lit '']'' @ [0x0a] @ content_text stringify message"

definition countMessageTokensWithModel ::
  "('a \<Rightarrow> jsstring) \<Rightarrow> 'a message \<Rightarrow> 'e chat_model option \<Rightarrow> ('e, int) async" where
  "countMessageTokensWithModel stringify message model =
     (case countTokensWithModel (Some (serializeMessageForTokenCount stringify message)) model of
        (Inl e, calls) \<Rightarrow> (Inl e, calls)
      | (Inr contentTokens, calls) \<Rightarrow> (Inr (contentTokens + MESSAGE_TOKEN_OVERHEAD), calls))"

text \<open>
  \<open>Promise.all\<close> over the mapped list: every call is started, in list order, and the
  whole rejects if one of them does.
\<close>

fun promise_all :: "('e, 'r) async list \<Rightarrow> ('e, 'r list) async" where
  "promise_all [] = (Inr [], [])"
| "promise_all ((r, calls) # ps) =
     (case promise_all ps of
        (rs, later) \<Rightarrow>
          ((case r of
              Inl e \<Rightarrow> Inl e
            | Inr v \<Rightarrow> (case rs of Inl e \<Rightarrow> Inl e | Inr vs \<Rightarrow> Inr (v # vs))),
           calls @ later))"

definition countTotalTokensWithModel ::
  "('a \<Rightarrow> jsstring) \<Rightarrow> 'a message list \<Rightarrow> 'e chat_model option \<Rightarrow> ('e, int) async" where
  "countTotalTokensWithModel stringify messages model =
     (if messages = [] then (Inr 0, [])
      else case promise_all (map (\<lambda>message. countMessageTokensWithModel stringify message model)
                               messages) of
             (Inl e, calls) \<Rightarrow> (Inl e, calls)
           | (Inr counts, calls) \<Rightarrow> (Inr (foldl (\<lambda>sum v. sum + v) 0 counts), calls))"

section \<open>Memory flush\<close>

text \<open>
  Modelled from the spec: the module \<open>memory-flush\<close> is not among the sources; only its
  test is. The state is the pair the spec describes.
\<close>

record MemoryFlushState =
  totalTokens :: int
  flushCycleArmed :: bool

text \<open>
  Modelled from the spec: \<open>createMemoryFlushState\<close>, the initial state: armed, no
  tokens observed.
\<close>

definition createMemoryFlushState :: MemoryFlushState where
  "createMemoryFlushState = \<lparr>totalTokens = 0, flushCycleArmed = True\<rparr>"

text \<open>
  Modelled from the spec: \<open>getMemoryFlushTriggerThreshold\<close>, the effective auto-compact
  threshold reused as the trigger point.
\<close>

definition getMemoryFlushTriggerThreshold :: "CompactionConfig \<Rightarrow> int" where
  "getMemoryFlushTriggerThreshold config = getEffectiveAutoCompactThreshold config"

text \<open>
  Modelled from the spec: \<open>getMemoryFlushRearmThreshold\<close>, a value below the trigger
  threshold by a hysteresis gap. The spec leaves the gap open, so it is a parameter here.
\<close>

definition getMemoryFlushRearmThreshold :: "int \<Rightarrow> CompactionConfig \<Rightarrow> int" where
  "getMemoryFlushRearmThreshold gap config = getMemoryFlushTriggerThreshold config - gap"

text \<open>
  Modelled from the spec: \<open>setTotalTokens\<close> records the observation and rearms a cooling
  state when the observation is at or below the rearm threshold.
\<close>

definition setTotalTokens ::
  "int \<Rightarrow> MemoryFlushState \<Rightarrow> int \<Rightarrow> CompactionConfig \<Rightarrow> MemoryFlushState" where
  "setTotalTokens gap state tokens config =
     \<lparr>totalTokens = tokens,
      flushCycleArmed =
        (if \<not> flushCycleArmed state \<and> tokens \<le> getMemoryFlushRearmThreshold gap config
         then True else flushCycleArmed state)\<rparr>"

text \<open>Modelled from the spec: \<open>shouldTriggerMemoryFlush\<close>.\<close>

definition shouldTriggerMemoryFlush :: "MemoryFlushState \<Rightarrow> CompactionConfig \<Rightarrow> bool" where
  "shouldTriggerMemoryFlush state config =
     (flushCycleArmed state \<and> getMemoryFlushTriggerThreshold config \<le> totalTokens state)"

text \<open>Modelled from the spec: \<open>markFlushCompleted\<close>.\<close>

definition markFlushCompleted :: "MemoryFlushState \<Rightarrow> MemoryFlushState" where
  "markFlushCompleted state = state\<lparr>flushCycleArmed := False\<rparr>"

text \<open>The operations a session applies to its state, and a run of them.\<close>

datatype flush_op = Observe int | Complete

fun apply_flush_op ::
  "int \<Rightarrow> CompactionConfig \<Rightarrow> MemoryFlushState \<Rightarrow> flush_op \<Rightarrow> MemoryFlushState" where
  "apply_flush_op gap config state (Observe tokens) = setTotalTokens gap state tokens config"
| "apply_flush_op gap config state Complete = markFlushCompleted state"

definition run_flush_ops ::
  "int \<Rightarrow> CompactionConfig \<Rightarrow> flush_op list \<Rightarrow> MemoryFlushState" where
  "run_flush_ops gap config ops = foldl (apply_flush_op gap config) createMemoryFlushState ops"

section \<open>Example values\<close>

definition example_human :: "string \<Rightarrow> unit message" where
  "example_human s = \<lparr>msg_type = lit ''human'', msg_content = Text (lit s)\<rparr>"

definition example_system :: "string \<Rightarrow> unit message" where
  "example_system s = \<lparr>msg_type = lit ''system'', msg_content = Text (lit s)\<rparr>"

definition example_config :: "int \<Rightarrow> CompactionConfig" where
  "example_config threshold =
     \<lparr>enabled = True, auto_compact_threshold = threshold, context_window = 128000,
      reserve_tokens = 20000, max_history_share = 1 / 2\<rparr>"

section \<open>Rounding to binary64\<close>

lemma pow2_powi: "pow2 e = 2 powi e"
  by (simp add: pow2_def power_int_def field_simps)

lemma pow2_pos: "0 < pow2 e"
  by (simp add: pow2_def)

lemma pow2_add: "pow2 (a + b) = pow2 a * pow2 b"
  by (simp add: pow2_powi power_int_add)

lemma pow2_mono: "a \<le> b \<Longrightarrow> pow2 a \<le> pow2 b"
  by (simp add: pow2_powi power_int_increasing)

lemma pow2_strict_mono: "a < b \<Longrightarrow> pow2 a < pow2 b"
  by (simp add: pow2_powi power_int_strict_increasing)

lemma pow2_nat: "pow2 (int n) = 2 ^ n"
  by (simp add: pow2_def)

lemma ilog2_unique_aux:
  assumes "pow2 n \<le> x" "x < pow2 (n + 1)" "pow2 m \<le> x" "x < pow2 (m + 1)"
  shows "n = m"
proof (rule ccontr)
  assume "n \<noteq> m"
  then consider "n + 1 \<le> m" | "m + 1 \<le> n" by linarith
  then show False
  proof cases
    case 1
    then have "pow2 (n + 1) \<le> pow2 m" by (rule pow2_mono)
    with assms show False by linarith
  next
    case 2
    then have "pow2 (m + 1) \<le> pow2 n" by (rule pow2_mono)
    with assms show False by linarith
  qed
qed

lemma bitlen_pow2_bounds:
  assumes "0 < a"
  shows "pow2 (bitlen a - 1) \<le> of_int a" and "of_int a < pow2 (bitlen a)"
proof -
  from bitlen_bounds [OF assms] have
    lo: "2 ^ nat (bitlen a - 1) \<le> a" and hi: "a < 2 ^ nat (bitlen a)" by simp_all
  have pos: "0 < bitlen a"
    using assms bitlen_eq_zero_iff [of a] bitlen_nonneg [of a] by linarith
  have "(of_int (2 ^ nat (bitlen a - 1)) :: rat) \<le> of_int a"
    using lo by (simp only: of_int_le_iff)
  then show "pow2 (bitlen a - 1) \<le> of_int a"
    using pos by (simp add: pow2_def)
  have "(of_int a :: rat) < of_int (2 ^ nat (bitlen a))"
    using hi by (simp only: of_int_less_iff)
  then show "of_int a < pow2 (bitlen a)"
    using pos by (simp add: pow2_def)
qed

lemma ilog2_bounds:
  assumes "0 < x"
  shows "pow2 (ilog2 x) \<le> x \<and> x < pow2 (ilog2 x + 1)"
proof -
  obtain a b where q: "quotient_of x = (a, b)" by (cases "quotient_of x")
  have b: "0 < b" using q quotient_of_denom_pos by blast
  have x: "x = of_int a / of_int b" using q by (rule quotient_of_div)
  have a: "0 < a"
    using assms b x by (simp add: zero_less_divide_iff)
  let ?k = "bitlen a - bitlen b"
  have upper: "x < pow2 (?k + 1)"
  proof -
    have "of_int a < pow2 (bitlen a)" using a by (rule bitlen_pow2_bounds)
    also have "pow2 (bitlen a) = pow2 (?k + 1) * pow2 (bitlen b - 1)"
      by (simp add: pow2_add [symmetric])
    also have "\<dots> \<le> pow2 (?k + 1) * of_int b"
      using bitlen_pow2_bounds(1) [OF b] pow2_pos [of "?k + 1"]
      by (simp add: mult_left_mono less_imp_le)
    finally have "of_int a < pow2 (?k + 1) * of_int b" .
    then show ?thesis using b by (simp add: x pos_divide_less_eq)
  qed
  have lower: "pow2 (?k - 1) \<le> x"
  proof -
    have "pow2 (?k - 1) * of_int b \<le> pow2 (?k - 1) * pow2 (bitlen b)"
      using bitlen_pow2_bounds(2) [OF b] pow2_pos [of "?k - 1"]
      by (simp add: mult_left_mono less_imp_le)
    also have "\<dots> = pow2 (bitlen a - 1)"
      by (simp add: pow2_add [symmetric])
    also have "\<dots> \<le> of_int a" using a by (rule bitlen_pow2_bounds)
    finally have "pow2 (?k - 1) * of_int b \<le> of_int a" .
    then show ?thesis using b by (simp add: x pos_le_divide_eq)
  qed
  show ?thesis
  proof (cases "pow2 ?k \<le> x")
    case True
    then have "ilog2 x = ?k" by (simp add: ilog2_def q Let_def)
    with True upper show ?thesis by simp
  next
    case False
    then have "ilog2 x = ?k - 1" by (simp add: ilog2_def q Let_def)
    with False lower show ?thesis by simp
  qed
qed

lemma ilog2_unique:
  assumes "pow2 n \<le> x" "x < pow2 (n + 1)"
  shows "ilog2 x = n"
proof -
  have "0 < x" using assms(1) pow2_pos [of n] by linarith
  from ilog2_bounds [OF this] assms show ?thesis
    by (intro ilog2_unique_aux [of "ilog2 x" x n]) simp_all
qed

lemma round_half_even_of_int: "round_half_even (of_int n) = n"
  by (simp add: round_half_even_def Let_def)

lemma to_double_exact_pos:
  assumes "0 < m" "m < 2 ^ 53"
  shows "to_double (of_int m * pow2 j) = of_int m * pow2 j"
proof -
  let ?x = "of_int m * pow2 j :: rat"
  have xpos: "0 < ?x" using assms(1) pow2_pos [of j] by simp
  have bl: "bitlen m \<le> 53"
    using assms(2) by (simp add: bitlen_le_iff_power)
  have "pow2 (bitlen m - 1 + j) \<le> ?x"
    using bitlen_pow2_bounds(1) [OF assms(1)] pow2_pos [of j]
    by (simp add: pow2_add mult_right_mono less_imp_le)
  moreover have "?x < pow2 (bitlen m - 1 + j + 1)"
  proof -
    have "?x < pow2 (bitlen m) * pow2 j"
      using bitlen_pow2_bounds(2) [OF assms(1)] pow2_pos [of j]
      by (simp add: mult_strict_right_mono)
    also have "\<dots> = pow2 (bitlen m - 1 + j + 1)"
      by (simp add: pow2_add [symmetric])
    finally show ?thesis .
  qed
  ultimately have il: "ilog2 ?x = bitlen m - 1 + j" by (rule ilog2_unique)
  define e where "e = ilog2 \<bar>?x\<bar> - 52"
  have e: "e = bitlen m - 53 + j" using il xpos by (simp add: e_def abs_of_pos)
  then have "0 \<le> j - e" using bl by simp
  then obtain d where d: "j - e = int d" using nonneg_int_cases by blast
  have "j = int d + e" using d by linarith
  then have "pow2 j = pow2 (int d) * pow2 e"
    by (simp only: pow2_add)
  then have pj: "pow2 j = 2 ^ d * pow2 e" by (simp add: pow2_nat)
  have "?x / pow2 e = of_int (m * 2 ^ d)"
    using pow2_pos [of e] by (simp add: pj)
  then have "round_half_even (?x / pow2 e) = m * 2 ^ d"
    by (simp only: round_half_even_of_int)
  then have "of_int (round_half_even (?x / pow2 e)) * pow2 e = ?x"
    by (simp add: pj)
  moreover have "?x \<noteq> 0" using xpos by (rule less_imp_neq [symmetric])
  ultimately show ?thesis
    unfolding to_double_def Let_def e_def [symmetric] by simp
qed

lemma to_double_of_nat:
  assumes "n < 2 ^ 53"
  shows "to_double (of_nat n) = of_nat n"
proof (cases "n = 0")
  case True
  then show ?thesis by (simp add: to_double_def)
next
  case False
  have "int n < 2 ^ 53" using assms by (metis of_nat_less_iff of_nat_numeral of_nat_power)
  with False to_double_exact_pos [of "int n" 0] show ?thesis
    by (simp add: pow2_def)
qed

lemma to_double_half_nat:
  assumes "n < 2 ^ 53"
  shows "to_double (of_nat n / 2) = of_nat n / 2"
proof (cases "n = 0")
  case True
  then show ?thesis by (simp add: to_double_def)
next
  case False
  have "int n < 2 ^ 53" using assms by (metis of_nat_less_iff of_nat_numeral of_nat_power)
  with False to_double_exact_pos [of "int n" "-1"] show ?thesis
    by (simp add: pow2_def)
qed

section \<open>Estimates are positive\<close>

lemma round_half_even_nonneg: "0 \<le> x \<Longrightarrow> 0 \<le> round_half_even x"
  by (auto simp: round_half_even_def Let_def)

lemma to_double_nonneg: "0 \<le> x \<Longrightarrow> 0 \<le> to_double x"
  by (auto simp: to_double_def Let_def pow2_pos less_imp_le round_half_even_nonneg
      intro!: mult_nonneg_nonneg)

lemma dadd_nonneg: "0 \<le> x \<Longrightarrow> 0 \<le> y \<Longrightarrow> 0 \<le> dadd x y"
  by (simp add: dadd_def to_double_nonneg)

lemma dmul_nonneg: "0 \<le> x \<Longrightarrow> 0 \<le> y \<Longrightarrow> 0 \<le> dmul x y"
  by (simp add: dmul_def to_double_nonneg)

lemma estimateTokens_nonneg: "0 \<le> estimateTokens t"
proof (cases "t = []")
  case True
  then show ?thesis by (simp add: estimateTokens_def)
next
  case False
  let ?v = "dadd (dadd (of_nat (length (filter is_cjk t)))
                   (dmul (of_nat (count_letter_runs t)) (to_double (13 / 10))))
              (dmul (of_nat (length (filter (\<lambda>c. \<not> is_counted_elsewhere c) t))) (1 / 2))"
  have "0 \<le> ?v"
    by (intro dadd_nonneg dmul_nonneg to_double_nonneg) simp_all
  then have "0 \<le> \<lceil>?v\<rceil>"
    by simp
  with False show ?thesis
    by (simp add: estimateTokens_def Let_def)
qed

lemma estimateMessageTokens_pos: "0 < estimateMessageTokens sf m"
  using estimateTokens_nonneg [of "content_text sf m"]
  by (simp add: estimateMessageTokens_def MESSAGE_TOKEN_OVERHEAD_def)

lemma foldl_est: "foldl (\<lambda>sum msg. sum + estimateMessageTokens sf msg) a xs
   = a + sum_list (map (estimateMessageTokens sf) xs)"
  by (induction xs arbitrary: a) auto

lemma estimateTotalTokens_sum_list:
  "estimateTotalTokens sf xs = sum_list (map (estimateMessageTokens sf) xs)"
  by (simp add: estimateTotalTokens_def foldl_est)

lemma prune_scan_mset:
  "mset (keptNonSystem (prune_scan sf a xs st)) + mset (scan_dropped (prune_scan sf a xs st))
   = mset xs + mset (keptNonSystem st) + mset (scan_dropped st)"
  by (induction xs arbitrary: st) (auto simp: Let_def)

lemma prune_scan_currentTokens:
  "currentTokens st = sum_list (map (estimateMessageTokens sf) (keptNonSystem st)) \<Longrightarrow>
   currentTokens (prune_scan sf a xs st)
    = sum_list (map (estimateMessageTokens sf) (keptNonSystem (prune_scan sf a xs st)))"
  by (induction xs arbitrary: st) (auto simp: Let_def)

lemma prune_scan_droppedTokens:
  "scan_droppedTokens st = sum_list (map (estimateMessageTokens sf) (scan_dropped st)) \<Longrightarrow>
   scan_droppedTokens (prune_scan sf a xs st)
    = sum_list (map (estimateMessageTokens sf) (scan_dropped (prune_scan sf a xs st)))"
  by (induction xs arbitrary: st) (auto simp: Let_def)

lemma prune_scan_kept_shape:
  "\<exists>ks. keptNonSystem (prune_scan sf a xs st) = ks @ keptNonSystem st \<and> subseq ks (rev xs)"
proof (induction xs arbitrary: st)
  case Nil
  then show ?case by simp
next
  case (Cons msg older)
  let ?t = "estimateMessageTokens sf msg"
  show ?case
  proof (cases "currentTokens st + ?t \<le> a")
    case True
    let ?st = "st\<lparr>keptNonSystem := msg # keptNonSystem st, currentTokens := currentTokens st + ?t\<rparr>"
    from Cons.IH [of ?st] obtain ks where
      ks: "keptNonSystem (prune_scan sf a older ?st) = ks @ keptNonSystem ?st" "subseq ks (rev older)"
      by blast
    have "subseq (ks @ [msg]) (rev older @ [msg])"
      using ks(2) by (intro list_emb_append_mono) simp_all
    with ks(1) True show ?thesis
      by (intro exI [of _ "ks @ [msg]"]) (simp add: Let_def)
  next
    case False
    let ?st = "st\<lparr>scan_dropped := scan_dropped st @ [msg],
                  scan_droppedTokens := scan_droppedTokens st + ?t\<rparr>"
    from Cons.IH [of ?st] obtain ks where
      ks: "keptNonSystem (prune_scan sf a older ?st) = ks @ keptNonSystem ?st" "subseq ks (rev older)"
      by blast
    have "subseq ks (rev older @ [msg])"
      using list_emb_append_mono [OF ks(2), of "[]" "[msg]"] by simp
    with ks(1) False show ?thesis
      by (intro exI [of _ ks]) (simp add: Let_def)
  qed
qed

lemma prune_scan_dropped_shape:
  "\<exists>ds. scan_dropped (prune_scan sf a xs st) = scan_dropped st @ ds \<and> subseq (rev ds) (rev xs)"
proof (induction xs arbitrary: st)
  case Nil
  then show ?case by simp
next
  case (Cons msg older)
  let ?t = "estimateMessageTokens sf msg"
  show ?case
  proof (cases "currentTokens st + ?t \<le> a")
    case True
    let ?st = "st\<lparr>keptNonSystem := msg # keptNonSystem st, currentTokens := currentTokens st + ?t\<rparr>"
    from Cons.IH [of ?st] obtain ds where
      ds: "scan_dropped (prune_scan sf a older ?st) = scan_dropped ?st @ ds"
        "subseq (rev ds) (rev older)"
      by blast
    have "subseq (rev ds) (rev older @ [msg])"
      using list_emb_append_mono [OF ds(2), of "[]" "[msg]"] by simp
    with ds(1) True show ?thesis
      by (intro exI [of _ ds]) (simp add: Let_def)
  next
    case False
    let ?st = "st\<lparr>scan_dropped := scan_dropped st @ [msg],
                  scan_droppedTokens := scan_droppedTokens st + ?t\<rparr>"
    from Cons.IH [of ?st] obtain ds where
      ds: "scan_dropped (prune_scan sf a older ?st) = scan_dropped ?st @ ds"
        "subseq (rev ds) (rev older)"
      by blast
    have "subseq (rev ds @ [msg]) (rev older @ [msg])"
      using ds(2) by (intro list_emb_append_mono) simp_all
    with ds(1) False show ?thesis
      by (intro exI [of _ "msg # ds"]) (simp add: Let_def)
  qed
qed

lemma prune_scan_no_room:
  "a < currentTokens st + 1 \<Longrightarrow> 0 \<le> currentTokens st \<Longrightarrow>
   prune_scan sf a xs st
     = st\<lparr>scan_dropped := scan_dropped st @ xs,
          scan_droppedTokens := scan_droppedTokens st + sum_list (map (estimateMessageTokens sf) xs)\<rparr>"
proof (induction xs arbitrary: st)
  case Nil
  then show ?case by simp
next
  case (Cons msg older)
  have "\<not> currentTokens st + estimateMessageTokens sf msg \<le> a"
    using Cons.prems estimateMessageTokens_pos [of sf msg] by linarith
  then show ?case
    using Cons.IH [of "st\<lparr>scan_dropped := scan_dropped st @ [msg],
        scan_droppedTokens := scan_droppedTokens st + estimateMessageTokens sf msg\<rparr>"] Cons.prems
    by (simp add: Let_def)
qed

section \<open>Properties of pruning\<close>

lemma pruneMessages_unfold:
  "messages \<noteq> [] \<Longrightarrow>
   pruneMessages sf messages maxTokens =
     (let st = prune_scan sf (maxTokens - estimateTotalTokens sf (filter is_system messages))
                 (rev (filter (\<lambda>m. \<not> is_system m) messages))
                 \<lparr>keptNonSystem = [], currentTokens = 0, scan_dropped = [], scan_droppedTokens = 0\<rparr>
      in \<lparr>kept = filter is_system messages @ keptNonSystem st,
          dropped = scan_dropped st,
          droppedTokens = scan_droppedTokens st,
          keptTokens = estimateTotalTokens sf (filter is_system messages) + currentTokens st\<rparr>)"
  by (simp add: pruneMessages_def Let_def)

lemma kept_nonsystem:
  assumes "messages \<noteq> []"
  shows "\<exists>ks. kept (pruneMessages sf messages maxTokens) = filter is_system messages @ ks
           \<and> subseq ks (filter (\<lambda>m. \<not> is_system m) messages)"
proof -
  let ?init = "\<lparr>keptNonSystem = [], currentTokens = 0, scan_dropped = [], scan_droppedTokens = 0\<rparr> :: 'a scan_state"
  let ?a = "maxTokens - estimateTotalTokens sf (filter is_system messages)"
  let ?ns = "filter (\<lambda>m. \<not> is_system m) messages"
  from prune_scan_kept_shape [where sf = sf and a = ?a and xs = "rev ?ns" and st = ?init]
  obtain ks where "keptNonSystem (prune_scan sf ?a (rev ?ns) ?init) = ks @ keptNonSystem ?init"
    "subseq ks (rev (rev ?ns))" by blast
  then show ?thesis using assms
    by (intro exI [of _ ks]) (simp add: pruneMessages_unfold Let_def)
qed

lemma dropped_nonsystem:
  assumes "messages \<noteq> []"
  shows "subseq (rev (dropped (pruneMessages sf messages maxTokens)))
           (filter (\<lambda>m. \<not> is_system m) messages)"
proof -
  let ?init = "\<lparr>keptNonSystem = [], currentTokens = 0, scan_dropped = [], scan_droppedTokens = 0\<rparr> :: 'a scan_state"
  let ?a = "maxTokens - estimateTotalTokens sf (filter is_system messages)"
  let ?ns = "filter (\<lambda>m. \<not> is_system m) messages"
  from prune_scan_dropped_shape [where sf = sf and a = ?a and xs = "rev ?ns" and st = ?init]
  obtain ds where "scan_dropped (prune_scan sf ?a (rev ?ns) ?init) = scan_dropped ?init @ ds"
    "subseq (rev ds) (rev (rev ?ns))" by blast
  then show ?thesis using assms
    by (simp add: pruneMessages_unfold Let_def)
qed

lemma subseq_filter_self:
  assumes "subseq ks (filter P xs)"
  shows "filter P ks = ks" and "filter (\<lambda>x. \<not> P x) ks = []"
proof -
  have "P x" if "x \<in> set ks" for x
  proof -
    from assms that obtain y where "y \<in> set (filter P xs)" "x = y"
      by (rule list_emb_set)
    then show ?thesis by simp
  qed
  then show "filter P ks = ks" and "filter (\<lambda>x. \<not> P x) ks = []"
    by (simp_all add: filter_empty_conv)
qed

text \<open>
  C2, as amended. The kept list is the system messages, in their original order, followed
  by the kept non-system messages, in their original relative order; the dropped list is in
  eviction order, which is newest first: reversed, it is a subsequence of the non-system
  messages.
\<close>

theorem pruneMessages_order:
  "kept (pruneMessages sf messages maxTokens)
     = filter is_system messages
       @ filter (\<lambda>m. \<not> is_system m) (kept (pruneMessages sf messages maxTokens))
   \<and> subseq (filter (\<lambda>m. \<not> is_system m) (kept (pruneMessages sf messages maxTokens)))
        (filter (\<lambda>m. \<not> is_system m) messages)
   \<and> subseq (rev (dropped (pruneMessages sf messages maxTokens)))
        (filter (\<lambda>m. \<not> is_system m) messages)"
proof (cases "messages = []")
  case True
  then show ?thesis by (simp add: pruneMessages_def)
next
  case False
  from kept_nonsystem [OF False, of sf maxTokens] obtain ks where
    ks: "kept (pruneMessages sf messages maxTokens) = filter is_system messages @ ks"
      "subseq ks (filter (\<lambda>m. \<not> is_system m) messages)" by blast
  have "filter (\<lambda>m. \<not> is_system m) ks = ks"
    using subseq_filter_self(1) [OF ks(2)] .
  with ks dropped_nonsystem [OF False, of sf maxTokens] show ?thesis
    by simp
qed

text \<open>
  C2 as stated fails: with a system message behind three human messages and room for one of
  them, the kept list starts with the system message and the dropped list runs from the
  newer message to the older, so neither is a subsequence of the input.
\<close>

theorem pruneMessages_order_counterexample:
  "\<not> subseq (kept (pruneMessages (\<lambda>_. [])
        [example_human ''a'', example_human ''b'', example_human ''c'', example_system ''s''] 12))
        [example_human ''a'', example_human ''b'', example_human ''c'', example_system ''s'']
   \<and> \<not> subseq (dropped (pruneMessages (\<lambda>_. [])
        [example_human ''a'', example_human ''b'', example_human ''c'', example_system ''s''] 12))
        [example_human ''a'', example_human ''b'', example_human ''c'', example_system ''s'']"
  by code_simp

text \<open>
  C1. The kept non-system messages are not always a suffix of the history: the loop goes on
  after a message that does not fit, and an older, smaller message is kept. With a budget
  of 12 tokens and messages of 6, 8 and 6 tokens, the middle one is dropped and both others
  are kept.
\<close>

theorem pruneMessages_readmits_older_message:
  "kept (pruneMessages (\<lambda>_. [])
      [example_human ''a'', example_human ''aaa bbb ccc'', example_human ''b''] 12)
     = [example_human ''a'', example_human ''b'']
   \<and> dropped (pruneMessages (\<lambda>_. [])
      [example_human ''a'', example_human ''aaa bbb ccc'', example_human ''b''] 12)
     = [example_human ''aaa bbb ccc'']
   \<and> \<not> suffix [example_human ''a'', example_human ''b'']
         [example_human ''a'', example_human ''aaa bbb ccc'', example_human ''b'']"
  by code_simp

text \<open>
  C9. Every input message is in exactly one of \<open>kept\<close> and \<open>dropped\<close> (as
  multisets), \<open>keptTokens\<close> and \<open>droppedTokens\<close> are the sums of the estimates of
  the kept and of the dropped messages, and together they are the estimate of the input.
\<close>

theorem pruneMessages_partition:
  "mset (kept (pruneMessages sf messages maxTokens))
     + mset (dropped (pruneMessages sf messages maxTokens)) = mset messages
   \<and> keptTokens (pruneMessages sf messages maxTokens)
       = sum_list (map (estimateMessageTokens sf) (kept (pruneMessages sf messages maxTokens)))
   \<and> droppedTokens (pruneMessages sf messages maxTokens)
       = sum_list (map (estimateMessageTokens sf) (dropped (pruneMessages sf messages maxTokens)))
   \<and> keptTokens (pruneMessages sf messages maxTokens)
       + droppedTokens (pruneMessages sf messages maxTokens)
       = estimateTotalTokens sf messages"
proof (cases "messages = []")
  case True
  then show ?thesis by (simp add: pruneMessages_def estimateTotalTokens_def)
next
  case False
  let ?init = "\<lparr>keptNonSystem = [], currentTokens = 0, scan_dropped = [], scan_droppedTokens = 0\<rparr> :: 'a scan_state"
  let ?a = "maxTokens - estimateTotalTokens sf (filter is_system messages)"
  let ?ns = "filter (\<lambda>m. \<not> is_system m) messages"
  let ?st = "prune_scan sf ?a (rev ?ns) ?init"
  let ?r = "pruneMessages sf messages maxTokens"
  let ?f = "estimateMessageTokens sf"
  have r: "kept ?r = filter is_system messages @ keptNonSystem ?st"
    "dropped ?r = scan_dropped ?st"
    "droppedTokens ?r = scan_droppedTokens ?st"
    "keptTokens ?r = estimateTotalTokens sf (filter is_system messages) + currentTokens ?st"
    using False by (simp_all add: pruneMessages_unfold Let_def)
  have m: "mset (keptNonSystem ?st) + mset (scan_dropped ?st) = mset ?ns"
    using prune_scan_mset [where sf = sf and a = ?a and xs = "rev ?ns" and st = ?init] by simp
  have part: "mset (kept ?r) + mset (dropped ?r) = mset messages"
  proof -
    have "mset (kept ?r) + mset (dropped ?r)
        = mset (filter is_system messages) + (mset (keptNonSystem ?st) + mset (scan_dropped ?st))"
      by (simp add: r)
    also have "\<dots> = mset (filter is_system messages) + mset ?ns"
      by (simp only: m)
    also have "\<dots> = mset messages"
      by simp
    finally show ?thesis .
  qed
  have kt: "keptTokens ?r = sum_list (map ?f (kept ?r))"
    using prune_scan_currentTokens [where sf = sf and a = ?a and xs = "rev ?ns" and st = ?init]
    by (simp add: r estimateTotalTokens_sum_list)
  have dt: "droppedTokens ?r = sum_list (map ?f (dropped ?r))"
    using prune_scan_droppedTokens [where sf = sf and a = ?a and xs = "rev ?ns" and st = ?init]
    by (simp add: r)
  have "sum_mset (image_mset ?f (mset (kept ?r) + mset (dropped ?r)))
      = sum_mset (image_mset ?f (mset messages))"
    by (simp only: part)
  then have "sum_list (map ?f (kept ?r)) + sum_list (map ?f (dropped ?r)) = sum_list (map ?f messages)"
    by (simp add: sum_mset_sum_list [symmetric])
  with part kt dt show ?thesis
    by (simp add: estimateTotalTokens_sum_list)
qed

text \<open>
  C7. The system messages of the input are all kept, in order, at the front of \<open>kept\<close>,
  whatever the budget; and when their estimate reaches \<open>maxTokens\<close>, every non-system
  message is dropped.
\<close>

theorem pruneMessages_keeps_system:
  "filter is_system (kept (pruneMessages sf messages maxTokens)) = filter is_system messages
   \<and> prefix (filter is_system messages) (kept (pruneMessages sf messages maxTokens))
   \<and> (maxTokens \<le> estimateTotalTokens sf (filter is_system messages) \<longrightarrow>
        kept (pruneMessages sf messages maxTokens) = filter is_system messages
        \<and> dropped (pruneMessages sf messages maxTokens)
            = rev (filter (\<lambda>m. \<not> is_system m) messages))"
proof (cases "messages = []")
  case True
  then show ?thesis by (simp add: pruneMessages_def)
next
  case False
  from kept_nonsystem [OF False, of sf maxTokens] obtain ks where
    ks: "kept (pruneMessages sf messages maxTokens) = filter is_system messages @ ks"
      "subseq ks (filter (\<lambda>m. \<not> is_system m) messages)" by blast
  have "filter is_system ks = []"
    using subseq_filter_self(2) [OF ks(2)] by simp
  then have a: "filter is_system (kept (pruneMessages sf messages maxTokens)) = filter is_system messages"
    by (simp add: ks(1))
  have b: "prefix (filter is_system messages) (kept (pruneMessages sf messages maxTokens))"
    by (simp add: ks(1))
  have c: "kept (pruneMessages sf messages maxTokens) = filter is_system messages
        \<and> dropped (pruneMessages sf messages maxTokens) = rev (filter (\<lambda>m. \<not> is_system m) messages)"
    if "maxTokens \<le> estimateTotalTokens sf (filter is_system messages)"
  proof -
    let ?init = "\<lparr>keptNonSystem = [], currentTokens = 0, scan_dropped = [], scan_droppedTokens = 0\<rparr> :: 'a scan_state"
    let ?a = "maxTokens - estimateTotalTokens sf (filter is_system messages)"
    have "?a < currentTokens ?init + 1" "0 \<le> currentTokens ?init"
      using that by simp_all
    from prune_scan_no_room [OF this, where sf = sf and xs = "rev (filter (\<lambda>m. \<not> is_system m) messages)"] False
    show ?thesis
      by (simp add: pruneMessages_unfold Let_def)
  qed
  from a b c show ?thesis by blast
qed

text \<open>Witness for C7: one human and one system message, with a budget of 3 tokens.\<close>

theorem pruneMessages_keeps_system_witness:
  "3 \<le> estimateTotalTokens (\<lambda>_. []) (filter is_system [example_human ''a'', example_system ''s''])
   \<and> kept (pruneMessages (\<lambda>_. []) [example_human ''a'', example_system ''s''] 3)
       = [example_system ''s'']
   \<and> dropped (pruneMessages (\<lambda>_. []) [example_human ''a'', example_system ''s''] 3)
       = [example_human ''a'']"
proof -
  have h: "3 \<le> estimateTotalTokens (\<lambda>_. []) (filter is_system [example_human ''a'', example_system ''s''])"
    by code_simp
  have f: "filter is_system [example_human ''a'', example_system ''s''] = [example_system ''s'']"
    "rev (filter (\<lambda>m. \<not> is_system m) [example_human ''a'', example_system ''s'']) = [example_human ''a'']"
    by code_simp+
  from h pruneMessages_keeps_system [of "\<lambda>_. []" "[example_human ''a'', example_system ''s'']" 3]
  show ?thesis
    by (simp only: f)
qed

section \<open>Properties of the budgets\<close>

text \<open>
  C3, as amended. The hard context budget and the history token budget are at least 1.
  The effective auto-compact threshold is the smaller of \<open>auto_compact_threshold\<close> and
  the hard budget: it never exceeds the hard budget, and it is at least 1 exactly when
  \<open>auto_compact_threshold\<close> is.
\<close>

theorem budgets_floor:
  "1 \<le> getCompactionHardContextBudget config
   \<and> 1 \<le> getCompactionHistoryTokenBudget config
   \<and> getEffectiveAutoCompactThreshold config
       = min (auto_compact_threshold config) (getCompactionHardContextBudget config)
   \<and> getEffectiveAutoCompactThreshold config \<le> getCompactionHardContextBudget config
   \<and> (1 \<le> getEffectiveAutoCompactThreshold config) = (1 \<le> auto_compact_threshold config)"
  by (simp add: getCompactionHardContextBudget_def getCompactionHistoryTokenBudget_def
      getEffectiveAutoCompactThreshold_def MIN_CONTEXT_BUDGET_TOKENS_def)

text \<open>
  C3 as stated fails: with \<open>auto_compact_threshold = 0\<close> the effective threshold is 0.
\<close>

theorem effective_threshold_not_floored_counterexample:
  "\<not> 1 \<le> getEffectiveAutoCompactThreshold (example_config 0)"
  by (simp add: getCompactionHardContextBudget_def example_config_def
      getEffectiveAutoCompactThreshold_def MIN_CONTEXT_BUDGET_TOKENS_def)

text \<open>
  C6. \<open>shouldAutoCompact\<close> is false when compaction is disabled and otherwise holds
  exactly from the effective threshold on, the threshold included. For the configuration of
  the budget test (window 128000, reserve 20000, threshold 120000, share 0.5, enabled) the
  three budgets are 108000, 108000 and 54000, and compaction starts at 108000 tokens.
\<close>

theorem shouldAutoCompact_threshold:
  "shouldAutoCompact tokens config
     = (enabled config \<and> getEffectiveAutoCompactThreshold config \<le> tokens)
   \<and> getCompactionHardContextBudget (example_config 120000) = 108000
   \<and> getEffectiveAutoCompactThreshold (example_config 120000) = 108000
   \<and> getCompactionHistoryTokenBudget (example_config 120000) = 54000
   \<and> shouldAutoCompact 107999 (example_config 120000) = False
   \<and> shouldAutoCompact 108000 (example_config 120000) = True"
proof -
  have "shouldAutoCompact tokens config
     = (enabled config \<and> getEffectiveAutoCompactThreshold config \<le> tokens)"
    by (simp add: shouldAutoCompact_def)
  moreover have "getCompactionHardContextBudget (example_config 120000) = 108000"
    by (simp add: getCompactionHardContextBudget_def example_config_def MIN_CONTEXT_BUDGET_TOKENS_def)
  moreover have "getEffectiveAutoCompactThreshold (example_config 120000) = 108000"
    by (simp add: getCompactionHardContextBudget_def example_config_def
        getEffectiveAutoCompactThreshold_def MIN_CONTEXT_BUDGET_TOKENS_def)
  moreover have "getCompactionHistoryTokenBudget (example_config 120000) = 54000"
    by code_simp
  moreover have "shouldAutoCompact 107999 (example_config 120000) = False"
    by (simp add: getCompactionHardContextBudget_def example_config_def shouldAutoCompact_def
        getEffectiveAutoCompactThreshold_def MIN_CONTEXT_BUDGET_TOKENS_def)
  moreover have "shouldAutoCompact 108000 (example_config 120000) = True"
    by (simp add: getCompactionHardContextBudget_def example_config_def shouldAutoCompact_def
        getEffectiveAutoCompactThreshold_def MIN_CONTEXT_BUDGET_TOKENS_def)
  ultimately show ?thesis by blast
qed


section \<open>Properties of the memory flush gate\<close>

lemma observe_above_rearm_stays_cooling:
  "\<not> flushCycleArmed s \<Longrightarrow> \<forall>t\<in>set obs. getMemoryFlushRearmThreshold gap config < t \<Longrightarrow>
   \<not> flushCycleArmed (foldl (\<lambda>st t. setTotalTokens gap st t config) s obs)"
  by (induction obs arbitrary: s) (auto simp: setTotalTokens_def)

text \<open>
  C4. For the state reached from the initial one by any operations: a flush is due exactly
  when the state is armed and the last observation has reached the trigger threshold, which
  is the effective auto-compact threshold; completing a flush disarms, keeps the
  observation and is idempotent; an observation is recorded, never disarms, and arms
  exactly when the state was armed or the observation is at most the rearm threshold, which
  lies below the trigger threshold; and after a completed flush no flush is due as long as
  every observation stays above the rearm threshold.
\<close>

theorem memory_flush_hysteresis:
  assumes "0 < gap"
  shows
   "run_flush_ops gap config [] = createMemoryFlushState
    \<and> flushCycleArmed createMemoryFlushState \<and> totalTokens createMemoryFlushState = 0
    \<and> shouldTriggerMemoryFlush (run_flush_ops gap config ops) config
        = (flushCycleArmed (run_flush_ops gap config ops)
           \<and> getMemoryFlushTriggerThreshold config \<le> totalTokens (run_flush_ops gap config ops))
    \<and> getMemoryFlushTriggerThreshold config = getEffectiveAutoCompactThreshold config
    \<and> getMemoryFlushRearmThreshold gap config < getMemoryFlushTriggerThreshold config
    \<and> \<not> flushCycleArmed (markFlushCompleted (run_flush_ops gap config ops))
    \<and> totalTokens (markFlushCompleted (run_flush_ops gap config ops))
        = totalTokens (run_flush_ops gap config ops)
    \<and> markFlushCompleted (markFlushCompleted (run_flush_ops gap config ops))
        = markFlushCompleted (run_flush_ops gap config ops)
    \<and> totalTokens (setTotalTokens gap (run_flush_ops gap config ops) tokens config) = tokens
    \<and> flushCycleArmed (setTotalTokens gap (run_flush_ops gap config ops) tokens config)
        = (flushCycleArmed (run_flush_ops gap config ops)
           \<or> tokens \<le> getMemoryFlushRearmThreshold gap config)
    \<and> ((\<forall>t\<in>set obs. getMemoryFlushRearmThreshold gap config < t) \<longrightarrow>
          \<not> shouldTriggerMemoryFlush
              (run_flush_ops gap config (ops @ Complete # map Observe obs)) config)"
proof -
  let ?s = "run_flush_ops gap config ops"
  have run: "run_flush_ops gap config (ops @ Complete # map Observe obs)
      = foldl (\<lambda>st t. setTotalTokens gap st t config) (markFlushCompleted ?s) obs"
    by (simp add: run_flush_ops_def foldl_map)
  have cool: "\<not> flushCycleArmed (markFlushCompleted ?s)"
    by (simp add: markFlushCompleted_def)
  have last: "\<not> shouldTriggerMemoryFlush
              (run_flush_ops gap config (ops @ Complete # map Observe obs)) config"
    if "\<forall>t\<in>set obs. getMemoryFlushRearmThreshold gap config < t"
    using observe_above_rearm_stays_cooling [OF cool that]
    by (simp add: run shouldTriggerMemoryFlush_def)
  have rearm: "getMemoryFlushRearmThreshold gap config < getMemoryFlushTriggerThreshold config"
    using assms by (simp add: getMemoryFlushRearmThreshold_def)
  have rest: "run_flush_ops gap config [] = createMemoryFlushState"
    "flushCycleArmed createMemoryFlushState" "totalTokens createMemoryFlushState = 0"
    "shouldTriggerMemoryFlush ?s config
        = (flushCycleArmed ?s \<and> getMemoryFlushTriggerThreshold config \<le> totalTokens ?s)"
    "getMemoryFlushTriggerThreshold config = getEffectiveAutoCompactThreshold config"
    "totalTokens (markFlushCompleted ?s) = totalTokens ?s"
    "markFlushCompleted (markFlushCompleted ?s) = markFlushCompleted ?s"
    "totalTokens (setTotalTokens gap ?s tokens config) = tokens"
    "flushCycleArmed (setTotalTokens gap ?s tokens config)
        = (flushCycleArmed ?s \<or> tokens \<le> getMemoryFlushRearmThreshold gap config)"
    by (auto simp: run_flush_ops_def createMemoryFlushState_def shouldTriggerMemoryFlush_def
        getMemoryFlushTriggerThreshold_def markFlushCompleted_def setTotalTokens_def)
  from rest cool last rearm show ?thesis by blast
qed

text \<open>
  Witness for C4, on the run of the hysteresis test with a gap of 8000: the threshold 80000
  is observed, the flush completes, and 82000 is observed.
\<close>

theorem memory_flush_hysteresis_witness:
  "(0::int) < 8000
   \<and> getMemoryFlushRearmThreshold 8000 (example_config 80000) < 82000
   \<and> shouldTriggerMemoryFlush (run_flush_ops 8000 (example_config 80000) [Observe 80000])
        (example_config 80000)
   \<and> \<not> shouldTriggerMemoryFlush
          (run_flush_ops 8000 (example_config 80000)
             ([Observe 80000] @ Complete # map Observe [82000]))
          (example_config 80000)"
proof -
  have h: "(0::int) < 8000" by simp
  have r: "getMemoryFlushRearmThreshold 8000 (example_config 80000) < 82000"
    by (simp add: getMemoryFlushRearmThreshold_def getMemoryFlushTriggerThreshold_def
        getCompactionHardContextBudget_def example_config_def
        getEffectiveAutoCompactThreshold_def MIN_CONTEXT_BUDGET_TOKENS_def)
  then have o: "\<forall>t\<in>set [82000]. getMemoryFlushRearmThreshold 8000 (example_config 80000) < t"
    by simp
  have t: "shouldTriggerMemoryFlush (run_flush_ops 8000 (example_config 80000) [Observe 80000])
        (example_config 80000)"
    by (simp add: run_flush_ops_def shouldTriggerMemoryFlush_def setTotalTokens_def
        createMemoryFlushState_def getMemoryFlushTriggerThreshold_def
        getCompactionHardContextBudget_def example_config_def
        getEffectiveAutoCompactThreshold_def MIN_CONTEXT_BUDGET_TOKENS_def)
  from o memory_flush_hysteresis [OF h, where config = "example_config 80000"
      and ops = "[Observe 80000]" and obs = "[82000]" and tokens = 0]
  have "\<not> shouldTriggerMemoryFlush
          (run_flush_ops 8000 (example_config 80000)
             ([Observe 80000] @ Complete # map Observe [82000]))
          (example_config 80000)"
    by blast
  with h r t show ?thesis by blast
qed

section \<open>Properties of counting\<close>

lemma tryCount_never_rejects: "\<exists>r. fst (tryCountTokensByModel text model) = Inr r"
  by (auto simp: tryCountTokensByModel_def split: option.splits sum.splits jsnum.splits)

lemma countTokens_never_rejects: "\<exists>n. fst (countTokensWithModel text model) = Inr n"
proof -
  obtain r calls where r: "tryCountTokensByModel (case text of None \<Rightarrow> [] | Some t \<Rightarrow> t) model = (Inr r, calls)"
    using tryCount_never_rejects [of "case text of None \<Rightarrow> [] | Some t \<Rightarrow> t" model]
    by (cases "tryCountTokensByModel (case text of None \<Rightarrow> [] | Some t \<Rightarrow> t) model") auto
  show ?thesis
    by (cases r) (simp_all add: countTokensWithModel_def r)
qed

lemma estimateTokens_Nil: "estimateTokens [] = 0"
  by (simp add: estimateTokens_def)

text \<open>
  C5. An empty or absent text counts 0 and the counter is not invoked. On a non-empty text
  a counter that resolves to a finite non-negative number gives that number rounded up.
  Without a model, with a model that has no counter, or with a counter that resolves to
  NaN or an infinity, resolves to a negative number, or throws, the result is the estimate
  of the text. No call of \<open>countTokensWithModel\<close> rejects. On an empty message list
  \<open>countTotalTokensWithModel\<close> is 0 and the counter is not invoked.
\<close>

theorem countTokensWithModel_policy:
  "countTokensWithModel (Some []) model = (Inr 0, [])
   \<and> countTokensWithModel None model = (Inr 0, [])
   \<and> (t \<noteq> [] \<longrightarrow> precise t = Inr (Finite r) \<longrightarrow> 0 \<le> r \<longrightarrow>
        countTokensWithModel (Some t) (Some \<lparr>getNumTokens = Some precise\<rparr>) = (Inr \<lceil>r\<rceil>, [t]))
   \<and> countTokensWithModel (Some t) None = (Inr (estimateTokens t), [])
   \<and> countTokensWithModel (Some t) (Some \<lparr>getNumTokens = None\<rparr>) = (Inr (estimateTokens t), [])
   \<and> (t \<noteq> [] \<longrightarrow> nonfinite t = Inr v \<longrightarrow> v \<in> {NaN, PosInfinity, NegInfinity} \<longrightarrow>
        countTokensWithModel (Some t) (Some \<lparr>getNumTokens = Some nonfinite\<rparr>)
          = (Inr (estimateTokens t), [t]))
   \<and> (t \<noteq> [] \<longrightarrow> negative t = Inr (Finite q) \<longrightarrow> q < 0 \<longrightarrow>
        countTokensWithModel (Some t) (Some \<lparr>getNumTokens = Some negative\<rparr>)
          = (Inr (estimateTokens t), [t]))
   \<and> (t \<noteq> [] \<longrightarrow> throwing t = Inl e \<longrightarrow>
        countTokensWithModel (Some t) (Some \<lparr>getNumTokens = Some throwing\<rparr>)
          = (Inr (estimateTokens t), [t]))
   \<and> (\<exists>n. fst (countTokensWithModel input model) = Inr n)
   \<and> countTotalTokensWithModel stringify [] model = (Inr 0, [])"
proof -
  have empty: "countTokensWithModel (Some []) model = (Inr 0, [])"
    "countTokensWithModel None model = (Inr 0, [])"
    by (simp_all add: countTokensWithModel_def tryCountTokensByModel_def)
  have precise: "countTokensWithModel (Some t) (Some \<lparr>getNumTokens = Some precise\<rparr>) = (Inr \<lceil>r\<rceil>, [t])"
    if "t \<noteq> []" "precise t = Inr (Finite r)" "0 \<le> r"
    using that by (simp add: countTokensWithModel_def tryCountTokensByModel_def)
  have absent: "countTokensWithModel (Some t) None = (Inr (estimateTokens t), [])"
    "countTokensWithModel (Some t) (Some \<lparr>getNumTokens = None\<rparr>) = (Inr (estimateTokens t), [])"
    by (simp_all add: countTokensWithModel_def tryCountTokensByModel_def estimateTokens_Nil)
  have nonfinite: "countTokensWithModel (Some t) (Some \<lparr>getNumTokens = Some nonfinite\<rparr>)
          = (Inr (estimateTokens t), [t])"
    if "t \<noteq> []" "nonfinite t = Inr v" "v \<in> {NaN, PosInfinity, NegInfinity}"
    using that by (auto simp: countTokensWithModel_def tryCountTokensByModel_def)
  have negative: "countTokensWithModel (Some t) (Some \<lparr>getNumTokens = Some negative\<rparr>)
          = (Inr (estimateTokens t), [t])"
    if "t \<noteq> []" "negative t = Inr (Finite q)" "q < 0"
    using that by (simp add: countTokensWithModel_def tryCountTokensByModel_def)
  have throwing: "countTokensWithModel (Some t) (Some \<lparr>getNumTokens = Some throwing\<rparr>)
          = (Inr (estimateTokens t), [t])"
    if "t \<noteq> []" "throwing t = Inl e"
    using that by (simp add: countTokensWithModel_def tryCountTokensByModel_def)
  have total: "countTotalTokensWithModel stringify [] model = (Inr 0, [])"
    by (simp add: countTotalTokensWithModel_def)
  from empty precise absent nonfinite negative throwing total
    countTokens_never_rejects [of input model]
  show ?thesis by blast
qed

text \<open>
  Witness for C5: the text \<open>abc\<close> with counters that resolve to 2.5, to NaN and to -1,
  and with one that throws.
\<close>

theorem countTokensWithModel_policy_witness:
  "lit ''abc'' \<noteq> [] \<and> (0::rat) \<le> 5 / 2 \<and> NaN \<in> {NaN, PosInfinity, NegInfinity} \<and> (- 1 :: rat) < 0
   \<and> countTokensWithModel (Some (lit ''abc''))
        (Some \<lparr>getNumTokens = Some (\<lambda>_. Inr (Finite (5 / 2)) :: unit + jsnum)\<rparr>)
      = (Inr 3, [lit ''abc''])
   \<and> countTokensWithModel (Some (lit ''abc''))
        (Some \<lparr>getNumTokens = Some (\<lambda>_. Inr NaN :: unit + jsnum)\<rparr>)
      = (Inr 2, [lit ''abc''])
   \<and> countTokensWithModel (Some (lit ''abc''))
        (Some \<lparr>getNumTokens = Some (\<lambda>_. Inr (Finite (- 1)) :: unit + jsnum)\<rparr>)
      = (Inr 2, [lit ''abc''])
   \<and> countTokensWithModel (Some (lit ''abc''))
        (Some \<lparr>getNumTokens = Some (\<lambda>_. Inl () :: unit + jsnum)\<rparr>)
      = (Inr 2, [lit ''abc''])"
proof -
  have h: "lit ''abc'' \<noteq> []" "(0::rat) \<le> 5 / 2" "NaN \<in> {NaN, PosInfinity, NegInfinity}"
    "(- 1 :: rat) < 0"
    by (simp_all add: lit_def)
  have c: "\<lceil>5 / 2 :: rat\<rceil> = 3" by code_simp
  have e: "estimateTokens (lit ''abc'') = 2" by code_simp
  from h countTokensWithModel_policy [where t = "lit ''abc''" and r = "5 / 2" and q = "- 1"
      and v = NaN and e = "()" and precise = "\<lambda>_. Inr (Finite (5 / 2))"
      and nonfinite = "\<lambda>_. Inr NaN" and negative = "\<lambda>_. Inr (Finite (- 1))"
      and throwing = "\<lambda>_. Inl ()" and input = None and model = None and stringify = "\<lambda>u::unit. []"]
  show ?thesis
    by (simp only: c e) blast
qed

section \<open>Properties of the estimator\<close>

lemma cjk_not_letter: "is_cjk c \<Longrightarrow> \<not> is_ascii_letter c"
  by (auto simp: is_cjk_def is_ascii_letter_def word_le_nat_alt)

lemma cjk_counted: "is_cjk c \<Longrightarrow> is_counted_elsewhere c"
  by (simp add: is_counted_elsewhere_def)

lemma letter_counted: "is_ascii_letter c \<Longrightarrow> is_counted_elsewhere c"
  by (simp add: is_counted_elsewhere_def)

lemma other_not_letter: "\<not> is_counted_elsewhere c \<Longrightarrow> \<not> is_ascii_letter c"
  by (simp add: is_counted_elsewhere_def)

lemma other_not_cjk: "\<not> is_counted_elsewhere c \<Longrightarrow> \<not> is_cjk c"
  by (simp add: is_counted_elsewhere_def)

lemma count_letter_runs_none:
  "list_all (\<lambda>c. \<not> is_ascii_letter c) t \<Longrightarrow> count_letter_runs t = 0"
  by (induction t) simp_all

lemma count_letter_runs_one_run:
  assumes "t \<noteq> []" "list_all is_ascii_letter t"
  shows "count_letter_runs t = 1"
proof -
  obtain c cs where t: "t = c # cs" using assms(1) by (cases t) auto
  have c: "is_ascii_letter c"
    using assms(2) by (simp add: t)
  have d: "dropWhile is_ascii_letter cs = []"
    using assms(2) by (simp add: t list_all_iff)
  show ?thesis
    unfolding t by (simp only: count_letter_runs.simps c d if_True)
qed

lemma dmul_zero: "dmul 0 x = 0"
  by (simp add: dmul_def to_double_def)

lemma letters_value:
  "\<lceil>dadd (dadd (of_nat 0) (dmul (of_nat 1) (to_double (13 / 10)))) (dmul (of_nat 0) (1 / 2))\<rceil> = 2"
  by code_simp

lemma estimateTokens_cjk:
  assumes "list_all is_cjk t" "length t < 2 ^ 53"
  shows "estimateTokens t = int (length t)"
proof (cases "t = []")
  case True
  then show ?thesis by (simp add: estimateTokens_Nil)
next
  case False
  have f: "filter is_cjk t = t" "filter (\<lambda>c. \<not> is_counted_elsewhere c) t = []"
    using assms(1) by (auto simp: list_all_iff filter_empty_conv cjk_counted)
  have w: "count_letter_runs t = 0"
    using assms(1) by (intro count_letter_runs_none) (auto simp: list_all_iff cjk_not_letter)
  show ?thesis
    using False assms(2)
    by (simp add: estimateTokens_def Let_def f w dmul_zero dadd_def to_double_of_nat)
qed

lemma estimateTokens_letters:
  assumes "list_all is_ascii_letter t"
  shows "estimateTokens t = (if t = [] then 0 else 2)"
proof (cases "t = []")
  case True
  then show ?thesis by (simp add: estimateTokens_Nil)
next
  case False
  have f: "filter is_cjk t = []" "filter (\<lambda>c. \<not> is_counted_elsewhere c) t = []"
    using assms by (auto simp: list_all_iff filter_empty_conv letter_counted cjk_not_letter)
  have w: "count_letter_runs t = 1"
    using False assms by (rule count_letter_runs_one_run)
  show ?thesis
    using False letters_value by (simp add: estimateTokens_def Let_def f w)
qed

lemma estimateTokens_other:
  assumes "list_all (\<lambda>c. \<not> is_counted_elsewhere c) t" "length t < 2 ^ 53"
  shows "estimateTokens t = \<lceil>rat_of_nat (length t) / 2\<rceil>"
proof (cases "t = []")
  case True
  then show ?thesis by (simp add: estimateTokens_Nil)
next
  case False
  have f: "filter is_cjk t = []" "filter (\<lambda>c. \<not> is_counted_elsewhere c) t = t"
    using assms(1) by (auto simp: list_all_iff filter_empty_conv other_not_cjk)
  have w: "count_letter_runs t = 0"
    using assms(1) by (intro count_letter_runs_none) (auto simp: list_all_iff other_not_letter)
  show ?thesis
    using False assms(2)
    by (simp add: estimateTokens_def Let_def f w dmul_zero dadd_def dmul_def to_double_half_nat
        to_double_def [of 0])
qed

text \<open>
  C8. The estimate of the empty text is 0, every estimate is a non-negative integer, and
  for a text of one class (CJK code units, ASCII letters, or code units of no other class)
  the estimate of a prefix is at most the estimate of the whole. A JavaScript string is
  shorter than \<open>2 ^ 53\<close> code units.
\<close>

theorem estimateTokens_monotone:
  "estimateTokens [] = 0
   \<and> 0 \<le> estimateTokens t
   \<and> (length (s @ u) < 2 ^ 53 \<longrightarrow>
        (list_all is_cjk (s @ u) \<or> list_all is_ascii_letter (s @ u)
         \<or> list_all (\<lambda>c. \<not> is_counted_elsewhere c) (s @ u)) \<longrightarrow>
        estimateTokens s \<le> estimateTokens (s @ u))"
proof -
  have mono: "estimateTokens s \<le> estimateTokens (s @ u)"
    if len: "length (s @ u) < 2 ^ 53"
      and cls: "list_all is_cjk (s @ u) \<or> list_all is_ascii_letter (s @ u)
         \<or> list_all (\<lambda>c. \<not> is_counted_elsewhere c) (s @ u)"
  proof -
    have ls: "length s < 2 ^ 53" using len by simp
    from cls consider (cjk) "list_all is_cjk (s @ u)" | (letters) "list_all is_ascii_letter (s @ u)"
      | (other) "list_all (\<lambda>c. \<not> is_counted_elsewhere c) (s @ u)" by blast
    then show ?thesis
    proof cases
      case cjk
      then have "list_all is_cjk s" by simp
      with cjk len ls show ?thesis by (simp add: estimateTokens_cjk)
    next
      case letters
      then have "list_all is_ascii_letter s" by simp
      with letters show ?thesis by (simp add: estimateTokens_letters)
    next
      case other
      then have "list_all (\<lambda>c. \<not> is_counted_elsewhere c) s" by simp
      with other len ls have "estimateTokens s = \<lceil>rat_of_nat (length s) / 2\<rceil>"
        "estimateTokens (s @ u) = \<lceil>rat_of_nat (length (s @ u)) / 2\<rceil>"
        by (simp_all only: estimateTokens_other)
      moreover have "rat_of_nat (length s) / 2 \<le> rat_of_nat (length (s @ u)) / 2" by simp
      ultimately show ?thesis by (simp only: ceiling_mono)
    qed
  qed
  with estimateTokens_Nil estimateTokens_nonneg [of t] show ?thesis by blast
qed

text \<open>Witness for C8: one text of each class.\<close>

theorem estimateTokens_monotone_witness:
  "length ([0x4e2d] @ [0x6587 :: code_unit]) < 2 ^ 53
   \<and> list_all is_cjk ([0x4e2d] @ [0x6587])
   \<and> estimateTokens [0x4e2d] \<le> estimateTokens ([0x4e2d] @ [0x6587])
   \<and> length (lit ''ab'' @ lit ''c'') < 2 ^ 53
   \<and> list_all is_ascii_letter (lit ''ab'' @ lit ''c'')
   \<and> estimateTokens (lit ''ab'') \<le> estimateTokens (lit ''ab'' @ lit ''c'')
   \<and> length (lit ''1'' @ lit ''2+3'') < 2 ^ 53
   \<and> list_all (\<lambda>c. \<not> is_counted_elsewhere c) (lit ''1'' @ lit ''2+3'')
   \<and> estimateTokens (lit ''1'') \<le> estimateTokens (lit ''1'' @ lit ''2+3'')"
proof -
  have a: "length ([0x4e2d] @ [0x6587 :: code_unit]) < 2 ^ 53"
    "list_all is_cjk ([0x4e2d] @ [0x6587])"
    by (simp_all add: is_cjk_def)
  have b: "length (lit ''ab'' @ lit ''c'') < 2 ^ 53"
    "list_all is_ascii_letter (lit ''ab'' @ lit ''c'')"
    by (simp_all add: lit_def is_ascii_letter_def)
  have c: "length (lit ''1'' @ lit ''2+3'') < 2 ^ 53"
    "list_all (\<lambda>c. \<not> is_counted_elsewhere c) (lit ''1'' @ lit ''2+3'')"
    by (simp_all add: lit_def is_counted_elsewhere_def is_cjk_def is_ascii_letter_def is_js_space_def)
  from a b c
    estimateTokens_monotone [where s = "[0x4e2d]" and u = "[0x6587]"]
    estimateTokens_monotone [where s = "lit ''ab''" and u = "lit ''c''"]
    estimateTokens_monotone [where s = "lit ''1''" and u = "lit ''2+3''"]
  show ?thesis by blast
qed

section \<open>Properties of the display\<close>

lemma round_half_even_error: "\<bar>of_int (round_half_even y) - y\<bar> \<le> 1 / 2"
proof -
  have "of_int \<lfloor>y\<rfloor> \<le> y" "y < of_int \<lfloor>y\<rfloor> + 1" by linarith+
  then show ?thesis
    by (auto simp: round_half_even_def Let_def abs_le_iff)
qed

lemma to_double_error:
  assumes "0 < x"
  shows "\<bar>to_double x - x\<bar> \<le> x / 2 ^ 53"
proof -
  define e where "e = ilog2 \<bar>x\<bar> - 52"
  define m where "m = round_half_even (x / pow2 e)"
  have td: "to_double x = of_int m * pow2 e"
    using assms by (simp add: to_double_def Let_def e_def m_def)
  have e: "e = ilog2 x - 52" using assms by (simp add: e_def)
  have "pow2 (ilog2 x) \<le> x" using ilog2_bounds [OF assms] by simp
  moreover have "pow2 (ilog2 x) = pow2 e * 2 ^ 52"
  proof -
    have "ilog2 x = e + int 52" using e by simp
    then show ?thesis by (simp only: pow2_add pow2_nat)
  qed
  ultimately have pe: "pow2 e * 2 ^ 52 \<le> x" by simp
  have "to_double x - x = (of_int m - x / pow2 e) * pow2 e"
    using pow2_pos [of e] by (simp add: td algebra_simps)
  then have "\<bar>to_double x - x\<bar> = \<bar>of_int m - x / pow2 e\<bar> * pow2 e"
    using pow2_pos [of e] by (simp add: abs_mult)
  also have "\<dots> \<le> (1 / 2) * pow2 e"
    using round_half_even_error [of "x / pow2 e"] pow2_pos [of e]
    by (intro mult_right_mono) (simp_all add: m_def)
  also have "\<dots> \<le> x / 2 ^ 53"
    using pe by (simp add: field_simps)
  finally show ?thesis .
qed

lemma formatTokenCount_nearest_tenth:
  assumes "1000 \<le> big" "big < 2 ^ 53"
  shows "\<exists>n. formatTokenCount big
            = nat_to_string (n div 10) @ ''.'' @ [digit_char (n mod 10)] @ ''K''
          \<and> \<bar>100 * int n - big\<bar> \<le> 50"
proof -
  define q :: rat where "q = of_int big / 1000"
  define x where "x = to_double q"
  define N where "N = \<lfloor>x * 10 + 1 / 2\<rfloor>"
  have qpos: "0 < q" using assms(1) by (simp add: q_def)
  have xnn: "0 \<le> x" using qpos by (simp add: x_def to_double_nonneg less_imp_le)
  have Nnn: "0 \<le> N" using xnn by (simp add: N_def)
  have fmt: "formatTokenCount big
      = nat_to_string (nat N div 10) @ ''.'' @ [digit_char (nat N mod 10)] @ ''K''"
    using assms(1) xnn
    by (simp add: formatTokenCount_def toFixed1_def Let_def ddiv_def q_def [symmetric]
        x_def [symmetric] N_def [symmetric])
  have "(of_int big :: rat) < 2 ^ 53"
    using assms(2) by (metis of_int_less_iff of_int_numeral of_int_power)
  then have small: "q / 2 ^ 53 < 1 / 1000"
    by (simp add: q_def)
  have "\<bar>x - q\<bar> < 1 / 1000"
    using to_double_error [OF qpos] small by (simp add: x_def)
  then have err: "x - q < 1 / 1000" "q - x < 1 / 1000"
    by linarith+
  have lo: "of_int N \<le> x * 10 + 1 / 2" and hi: "x * 10 + 1 / 2 < of_int N + 1"
    unfolding N_def by linarith+
  have q: "of_int big = 1000 * q" by (simp add: q_def)
  have "of_int (100 * N) < (of_int (big + 51) :: rat)"
    using lo err(1) q by simp
  then have a: "100 * N < big + 51" by (simp only: of_int_less_iff)
  have "(of_int (big - 51) :: rat) < of_int (100 * N)"
    using hi err(2) q by simp
  then have b: "big - 51 < 100 * N" by (simp only: of_int_less_iff)
  from a b Nnn have "\<bar>100 * int (nat N) - big\<bar> \<le> 50" by simp
  with fmt show ?thesis by blast
qed


lemma percentage_error:
  assumes "0 \<le> cur" "0 < window"
  shows "\<bar>of_int \<lfloor>dmul (ddiv (of_int cur) (of_int window)) 100 + 1 / 2\<rfloor>
           - 100 * rat_of_int cur / rat_of_int window\<bar>
         \<le> 1 / 2 + (rat_of_int cur / rat_of_int window) / 2 ^ 44"
proof (cases "cur = 0")
  case True
  have "\<lfloor>1 / 2 :: rat\<rfloor> = 0" by linarith
  with True show ?thesis by (simp add: dmul_def ddiv_def to_double_def)
next
  case False
  define r :: rat where "r = of_int cur / of_int window"
  define x where "x = to_double r"
  define y where "y = to_double (x * 100)"
  have rpos: "0 < r" using assms False by (simp add: r_def)
  have ex: "\<bar>x - r\<bar> \<le> r / 2 ^ 53"
    unfolding x_def using rpos by (rule to_double_error)
  have "r / 2 ^ 53 < r" using rpos by (simp add: field_simps)
  with ex have xpos: "0 < x" by linarith
  then have "0 < x * 100" by simp
  then have ey: "\<bar>y - x * 100\<bar> \<le> x * 100 / 2 ^ 53"
    unfolding y_def by (rule to_double_error)
  define eps :: rat where "eps = 1 / 2 ^ 53"
  have eps: "0 < eps" "eps < 1" by (simp_all add: eps_def)
  have e44: "r / 2 ^ 44 = 512 * (r * eps)" by (simp add: eps_def)
  have "\<bar>x - r\<bar> \<le> r * eps" using ex by (simp add: eps_def)
  then have bnd_x: "x - r \<le> r * eps" "r - x \<le> r * eps" by linarith+
  have "\<bar>y - x * 100\<bar> \<le> 100 * (x * eps)" using ey by (simp add: eps_def)
  then have bnd_y: "y - x * 100 \<le> 100 * (x * eps)" "x * 100 - y \<le> 100 * (x * eps)"
    by linarith+
  have "r * eps < r * 1" using rpos eps(2) by (intro mult_strict_left_mono)
  then have "x \<le> 2 * r" using bnd_x(1) by simp
  then have xe: "x * eps \<le> 2 * (r * eps)"
    using eps(1) mult_right_mono [of x "2 * r" eps] by simp
  have re: "0 < r * eps" using rpos eps(1) by simp
  have up: "y - 100 * r \<le> r / 2 ^ 44"
    unfolding e44 using bnd_x bnd_y xe re by linarith
  have dn: "100 * r - y \<le> r / 2 ^ 44"
    unfolding e44 using bnd_x bnd_y xe re by linarith
  define P where "P = \<lfloor>y + 1 / 2\<rfloor>"
  have "of_int P \<le> y + 1 / 2" "y + 1 / 2 < of_int P + 1"
    unfolding P_def by linarith+
  with up dn have "\<bar>of_int P - 100 * r\<bar> \<le> 1 / 2 + r / 2 ^ 44"
    by linarith
  then have "\<bar>of_int \<lfloor>y + 1 / 2\<rfloor> - 100 * r\<bar> \<le> 1 / 2 + r / 2 ^ 44"
    by (simp only: P_def)
  then show ?thesis
    by (simp add: dmul_def ddiv_def r_def x_def y_def)
qed

lemma getContextUsageInfo_unfold:
  assumes "context_window config \<noteq> 0"
  shows "getContextUsageInfo cur config
     = ''[Context: '' @ formatTokenCount cur @ ''/'' @ formatTokenCount (context_window config)
       @ '' ('' @ int_to_string
           \<lfloor>dmul (ddiv (of_int cur) (of_int (context_window config))) 100 + 1 / 2\<rfloor> @ ''%)]''"
  using assms by (simp add: getContextUsageInfo_def js_divide_def)

text \<open>
  C10. 999 is rendered as \<open>999\<close> and 1500 as \<open>1.5K\<close>. A count of at least 1000 is
  rendered as \<open>toFixed(1)\<close> of the count divided by 1000, followed by \<open>K\<close>: for a
  count below \<open>2 ^ 53\<close> that is a decimal with one digit behind the point, and the
  number of tenths it shows is within 50 tokens of the count. A smaller count is rendered
  as a plain integer. The usage string is \<open>[Context: current/window (percentage%)]\<close>
  with both counts so formatted and the percentage \<open>Math.round\<close> of the binary64
  value of current / window * 100, which for a non-negative count is within half a point
  (and the rounding error of the two operations) of the exact percentage.
\<close>

theorem formatTokenCount_display:
  "formatTokenCount 999 = ''999''
   \<and> formatTokenCount 1500 = ''1.5K''
   \<and> (1000 \<le> big \<longrightarrow> formatTokenCount big = toFixed1 (ddiv (of_int big) 1000) @ ''K'')
   \<and> (1000 \<le> big \<longrightarrow> big < 2 ^ 53 \<longrightarrow>
        (\<exists>n. formatTokenCount big
                = nat_to_string (n div 10) @ ''.'' @ [digit_char (n mod 10)] @ ''K''
              \<and> \<bar>100 * int n - big\<bar> \<le> 50))
   \<and> (small < 1000 \<longrightarrow> formatTokenCount small = int_to_string small)
   \<and> (context_window config \<noteq> 0 \<longrightarrow>
        getContextUsageInfo cur config
          = ''[Context: '' @ formatTokenCount cur @ ''/''
            @ formatTokenCount (context_window config)
            @ '' ('' @ int_to_string
                \<lfloor>dmul (ddiv (of_int cur) (of_int (context_window config))) 100 + 1 / 2\<rfloor>
            @ ''%)]'')
   \<and> (0 \<le> cur \<longrightarrow> 0 < context_window config \<longrightarrow>
        \<bar>of_int \<lfloor>dmul (ddiv (of_int cur) (of_int (context_window config))) 100 + 1 / 2\<rfloor>
           - 100 * rat_of_int cur / rat_of_int (context_window config)\<bar>
        \<le> 1 / 2 + (rat_of_int cur / rat_of_int (context_window config)) / 2 ^ 44)"
proof -
  have a: "formatTokenCount 999 = ''999''" by code_simp
  have b: "formatTokenCount 1500 = ''1.5K''" by code_simp
  have c: "formatTokenCount big = toFixed1 (ddiv (of_int big) 1000) @ ''K''" if "1000 \<le> big"
    using that by (simp add: formatTokenCount_def)
  have d: "formatTokenCount small = int_to_string small" if "small < 1000"
    using that by (simp add: formatTokenCount_def)
  from a b c d formatTokenCount_nearest_tenth [of big]
    getContextUsageInfo_unfold [of config cur] percentage_error [of cur "context_window config"]
  show ?thesis by blast
qed

text \<open>Witness for C10: 54000 tokens of a window of 128000.\<close>

theorem formatTokenCount_display_witness:
  "(1000::int) \<le> 128000 \<and> (128000::int) < 2 ^ 53 \<and> (999::int) < 1000
   \<and> context_window (example_config 120000) \<noteq> 0
   \<and> (0::int) \<le> 54000 \<and> 0 < context_window (example_config 120000)
   \<and> formatTokenCount 128000 = ''128.0K''
   \<and> getContextUsageInfo 54000 (example_config 120000) = ''[Context: 54.0K/128.0K (42%)]''"
proof -
  have h: "(1000::int) \<le> 128000" "(128000::int) < 2 ^ 53" "(999::int) < 1000"
    "context_window (example_config 120000) \<noteq> 0"
    "(0::int) \<le> 54000" "0 < context_window (example_config 120000)"
    by (simp_all add: example_config_def)
  have v: "toFixed1 (ddiv (of_int 128000) 1000) @ ''K'' = ''128.0K''"
    by code_simp
  have w: "''[Context: '' @ formatTokenCount 54000 @ ''/''
            @ formatTokenCount (context_window (example_config 120000))
            @ '' ('' @ int_to_string
                \<lfloor>dmul (ddiv (of_int 54000) (of_int (context_window (example_config 120000)))) 100 + 1 / 2\<rfloor>
            @ ''%)]'' = ''[Context: 54.0K/128.0K (42%)]''"
    by code_simp
  from h formatTokenCount_display [where big = 128000 and small = 999 and cur = 54000
      and config = "example_config 120000"]
  have "formatTokenCount 128000 = toFixed1 (ddiv (of_int 128000) 1000) @ ''K''"
    "getContextUsageInfo 54000 (example_config 120000)
      = ''[Context: '' @ formatTokenCount 54000 @ ''/''
            @ formatTokenCount (context_window (example_config 120000))
            @ '' ('' @ int_to_string
                \<lfloor>dmul (ddiv (of_int 54000) (of_int (context_window (example_config 120000)))) 100 + 1 / 2\<rfloor>
            @ ''%)]''"
    by blast+
  with h v w show ?thesis by simp
qed

text \<open>
  The percentage is computed in binary64: 285 / 1000 * 100 is 28.499999999999996 there,
  and is shown as 28.
\<close>

lemma percentage_in_binary64:
  "getContextUsageInfo 285 \<lparr>enabled = True, auto_compact_threshold = 800, context_window = 1000,
      reserve_tokens = 100, max_history_share = 1 / 2\<rparr> = ''[Context: 285/1.0K (28%)]''"
  by code_simp

end
